theory Spec2Isabelle
  imports Complex_Main "HOL-Library.Word" "HOL-Library.Monad_Syntax"
begin

section \<open>Scalar = double\<close>

text \<open>
  \<^verbatim>\<open>using Scalar = double;\<close>  The component type of \<^verbatim>\<open>Vector3d\<close> and the type of every
  scalar result is the IEEE 754 binary64 format, in the default rounding mode (round to
  nearest, ties to even).  A finite value is \<open>Finite s m e\<close>, standing for
  \<open>(-1)^s * m * 2^e\<close>; the results of the operations are kept in lowest terms (\<open>m\<close> odd, or
  \<open>m = 0\<close> and \<open>e = 0\<close>), so that \<open>1.0\<close> is \<open>Finite False 1 0\<close>, \<open>0.5\<close> is
  \<open>Finite False 1 (- 1)\<close> and the two zeros are \<open>Finite False 0 0\<close> and \<open>Finite True 0 0\<close>.
  The payload and the sign of a NaN are not tracked.
\<close>

datatype double = Finite bool nat int | Infinity bool | NaN

text \<open>The number of binary digits of \<open>m\<close>.\<close>

fun bitlen :: "nat \<Rightarrow> nat" where
  "bitlen m = (if m = 0 then 0 else Suc (bitlen (m div 2)))"

text \<open>Lowest terms: trailing zero bits of the significand move into the exponent.\<close>

fun normalise :: "nat \<Rightarrow> int \<Rightarrow> nat \<times> int" where
  "normalise m e =
     (if m = 0 then (0, 0)
      else if even m then normalise (m div 2) (e + 1)
      else (m, e))"

declare bitlen.simps [simp del] normalise.simps [simp del]

text \<open>\<open>m / d\<close> rounded to the nearest natural number, a tie going to the even one.\<close>

definition round_half_even :: "nat \<Rightarrow> nat \<Rightarrow> nat" where
  "round_half_even m d =
     (let q = m div d; r = m mod d
      in if d < 2 * r \<or> (2 * r = d \<and> odd q) then q + 1 else q)"

text \<open>
  The double nearest to the exact value \<open>(-1)^s * m * 2^e\<close> (\<open>m > 0\<close>).  A binary64
  significand has 53 bits and the smallest quantum is \<open>2^-1074\<close> (subnormal numbers), so
  the last bit kept has weight \<open>2^e'\<close> with \<open>e' = max (e + bitlen m - 53) (-1074)\<close>; a
  rounded value of \<open>2^1024\<close> or more overflows to infinity.
\<close>

definition round_double :: "bool \<Rightarrow> nat \<Rightarrow> int \<Rightarrow> double" where
  "round_double s m e =
     (let e' = max (e + int (bitlen m) - 53) (- 1074);
          q = (if e' \<le> e then m else round_half_even m (2 ^ nat (e' - e)));
          E = (if e' \<le> e then e else e')
      in if 1024 < int (bitlen q) + E then Infinity s
         else case normalise q E of (m', e'') \<Rightarrow> Finite s m' e'')"

definition signed_nat :: "bool \<Rightarrow> nat \<Rightarrow> int" where
  "signed_nat s m = (if s then - int m else int m)"

text \<open>Floor of the square root, two bits at a time.\<close>

definition isqrt_step :: "nat \<Rightarrow> nat \<Rightarrow> nat" where
  "isqrt_step r n = (if (r + 1) * (r + 1) \<le> n then r + 1 else r)"

fun isqrt :: "nat \<Rightarrow> nat" where
  "isqrt n = (if n < 2 then n else isqrt_step (2 * isqrt (n div 4)) n)"

declare isqrt.simps [simp del]

instantiation double :: "{zero, plus, uminus, minus, times, ord}"
begin

definition zero_double :: double where
  "zero_double = Finite False 0 0"

text \<open>
  The exact sum of two finite values is computed on a common exponent and rounded once.
  An exact sum of zero is \<open>+0\<close>, except that \<open>(-0) + (-0) = -0\<close>.
\<close>

fun plus_double :: "double \<Rightarrow> double \<Rightarrow> double" where
  "plus_double NaN y = NaN"
| "plus_double x NaN = NaN"
| "plus_double (Infinity s) (Infinity t) = (if s = t then Infinity s else NaN)"
| "plus_double (Infinity s) (Finite t m e) = Infinity s"
| "plus_double (Finite s m e) (Infinity t) = Infinity t"
| "plus_double (Finite s1 m1 e1) (Finite s2 m2 e2) =
     (let e = min e1 e2;
          M = signed_nat s1 m1 * 2 ^ nat (e1 - e) + signed_nat s2 m2 * 2 ^ nat (e2 - e)
      in if M = 0 then Finite (s1 \<and> s2) 0 0
         else round_double (M < 0) (nat \<bar>M\<bar>) e)"

fun uminus_double :: "double \<Rightarrow> double" where
  "uminus_double NaN = NaN"
| "uminus_double (Infinity s) = Infinity (\<not> s)"
| "uminus_double (Finite s m e) = Finite (\<not> s) m e"

definition minus_double :: "double \<Rightarrow> double \<Rightarrow> double" where
  "minus_double x y = x + (- y)"

fun times_double :: "double \<Rightarrow> double \<Rightarrow> double" where
  "times_double NaN y = NaN"
| "times_double x NaN = NaN"
| "times_double (Infinity s) (Infinity t) = Infinity (s \<noteq> t)"
| "times_double (Infinity s) (Finite t m e) = (if m = 0 then NaN else Infinity (s \<noteq> t))"
| "times_double (Finite s m e) (Infinity t) = (if m = 0 then NaN else Infinity (s \<noteq> t))"
| "times_double (Finite s1 m1 e1) (Finite s2 m2 e2) =
     (if m1 * m2 = 0 then Finite (s1 \<noteq> s2) 0 0
      else round_double (s1 \<noteq> s2) (m1 * m2) (e1 + e2))"

text \<open>The comparisons \<^verbatim>\<open><=\<close> and \<^verbatim>\<open><\<close>: false as soon as an operand is a NaN.\<close>

fun less_eq_double :: "double \<Rightarrow> double \<Rightarrow> bool" where
  "less_eq_double NaN y = False"
| "less_eq_double x NaN = False"
| "less_eq_double (Infinity s) (Infinity t) = (s \<or> \<not> t)"
| "less_eq_double (Infinity s) (Finite t m e) = s"
| "less_eq_double (Finite s m e) (Infinity t) = (\<not> t)"
| "less_eq_double (Finite s1 m1 e1) (Finite s2 m2 e2) =
     (let e = min e1 e2
      in signed_nat s1 m1 * 2 ^ nat (e1 - e) \<le> signed_nat s2 m2 * 2 ^ nat (e2 - e))"

fun less_double :: "double \<Rightarrow> double \<Rightarrow> bool" where
  "less_double NaN y = False"
| "less_double x NaN = False"
| "less_double (Infinity s) (Infinity t) = (s \<and> \<not> t)"
| "less_double (Infinity s) (Finite t m e) = s"
| "less_double (Finite s m e) (Infinity t) = (\<not> t)"
| "less_double (Finite s1 m1 e1) (Finite s2 m2 e2) =
     (let e = min e1 e2
      in signed_nat s1 m1 * 2 ^ nat (e1 - e) < signed_nat s2 m2 * 2 ^ nat (e2 - e))"

instance ..

end

text \<open>
  \<^verbatim>\<open>std::sqrt\<close>, correctly rounded.  The argument is scaled to \<open>M * 2^E\<close> with \<open>E\<close> even
  and \<open>M \<ge> 2^110\<close>; the floor \<open>q\<close> of the root of \<open>M\<close> then has more than 53 bits, and one
  more bit below it records whether the root is inexact.
\<close>

fun sqrt_double :: "double \<Rightarrow> double" where
  "sqrt_double NaN = NaN"
| "sqrt_double (Infinity s) = (if s then NaN else Infinity False)"
| "sqrt_double (Finite s m e) =
     (if m = 0 then Finite s 0 0
      else if s then NaN
      else let sh = (if even e then 110 else 111);
               M = m * 2 ^ sh;
               q = isqrt M
           in round_double False (2 * q + (if q * q = M then 0 else 1))
                ((e - int sh) div 2 - 1))"

text \<open>The conversion of an integer to \<^verbatim>\<open>double\<close>.\<close>

definition double_of_int :: "int \<Rightarrow> double" where
  "double_of_int i =
     (if i = 0 then Finite False 0 0 else round_double (i < 0) (nat \<bar>i\<bar>) 0)"

text \<open>
  \<^verbatim>\<open>std::to_string(double)\<close> prints as \<^verbatim>\<open>printf("%f")\<close> does: the integer part, a point
  and six decimals, the exact binary value being rounded to the nearest such decimal.  A
  NaN prints as \<open>nan\<close> or, with its sign bit set, as \<open>-nan\<close>; the type \<open>double\<close> above does
  not record that bit, so it is the argument \<open>nan_sign\<close> of the function.
\<close>

definition digit :: "nat \<Rightarrow> char" where
  "digit d = ''0123456789'' ! d"

fun digits :: "nat \<Rightarrow> string" where
  "digits n = (if n < 10 then [digit n] else digits (n div 10) @ [digit (n mod 10)])"

declare digits.simps [simp del]

fun to_string_double :: "bool \<Rightarrow> double \<Rightarrow> string" where
  "to_string_double nan_sign NaN = (if nan_sign then ''-nan'' else ''nan'')"
| "to_string_double nan_sign (Infinity s) = (if s then ''-inf'' else ''inf'')"
| "to_string_double nan_sign (Finite s m e) =
     (let N = (if 0 \<le> e then m * 2 ^ nat e * 10 ^ 6
               else round_half_even (m * 10 ^ 6) (2 ^ nat (- e)));
          F = N mod 10 ^ 6
      in (if s then ''-'' else '''') @ digits (N div 10 ^ 6) @ ''.''
           @ [digit (F div 100000), digit (F div 10000 mod 10), digit (F div 1000 mod 10),
              digit (F div 100 mod 10), digit (F div 10 mod 10), digit (F mod 10)])"

section \<open>The class Vector\<close>

text \<open>
  \<^verbatim>\<open>template<ScalarType T, size_t Dim> class Vector\<close> has one member,
  \<^verbatim>\<open>std::vector<T> vec\<close>.  The private constructor \<^verbatim>\<open>Vector(std::vector<T> v)\<close> stores
  its argument as it is: it is the constructor \<open>Vector\<close> of the datatype.  The arithmetic
  of \<open>T\<close> is that of the type class instance of \<open>'a\<close>; the implicit conversions between
  \<open>T\<close> and \<^verbatim>\<open>Scalar\<close> are the parameters \<open>toS\<close> and \<open>fromS\<close> of the operations that convert
  (both the identity for \<^verbatim>\<open>Vector3d\<close>).
\<close>

datatype 'a Vector = Vector (vec: "'a list")

text \<open>
  The public constructor takes \<^verbatim>\<open>sizeof...(Xn)\<close> arguments and is constrained by
  \<^verbatim>\<open>requires(sizeof...(Xn) == Dim)\<close>: with another number of arguments there is no
  constructor to call (\<open>None\<close>: the program is rejected by the compiler).
\<close>

definition Vector_ctor :: "nat \<Rightarrow> 'a list \<Rightarrow> 'a Vector option" where
  "Vector_ctor Dim xn = (if length xn = Dim then Some (Vector xn) else None)"

text \<open>
  \<^verbatim>\<open>size_t\<close> is a 64-bit unsigned integer.  \<^verbatim>\<open>vec[i]\<close> is an unchecked read: outside
  \<open>[0, vec.size())\<close> the behaviour is undefined, which is the result \<open>None\<close>.
\<close>

type_synonym size_t = "64 word"

definition vec_size :: "'a list \<Rightarrow> size_t" where
  "vec_size v = of_nat (length v)"

definition operator_index :: "'a list \<Rightarrow> size_t \<Rightarrow> 'a option" where
  "operator_index v i = (if unat i < length v then Some (v ! unat i) else None)"

text \<open>
  \<^verbatim>\<open>std::transform(first1, last1, first2, std::back_inserter(ret), op)\<close> walks the first
  range and reads the second one in step with it, wherever that one ends.
\<close>

fun transform2 :: "('a \<Rightarrow> 'b \<Rightarrow> 'c) \<Rightarrow> 'a list \<Rightarrow> 'b list \<Rightarrow> 'c list option" where
  "transform2 op [] ys = Some []"
| "transform2 op (x # xs) [] = None"
| "transform2 op (x # xs) (y # ys) = map_option ((#) (op x y)) (transform2 op xs ys)"

definition operator_plus :: "'a::plus Vector \<Rightarrow> 'a Vector \<Rightarrow> 'a Vector option" where
  "operator_plus a other = map_option Vector (transform2 (+) (vec a) (vec other))"

definition operator_minus :: "'a::minus Vector \<Rightarrow> 'a Vector \<Rightarrow> 'a Vector option" where
  "operator_minus a other = map_option Vector (transform2 (-) (vec a) (vec other))"

text \<open>
  \<^verbatim>\<open>operator*(const Scalar& s)\<close>: the lambda takes its argument as a \<^verbatim>\<open>Scalar\<close> and
  returns the \<^verbatim>\<open>Scalar\<close> \<open>s * elem\<close>; the back inserter stores it into a
  \<^verbatim>\<open>std::vector<T>\<close>.
\<close>

definition operator_times_Scalar ::
  "(double \<Rightarrow> 'a) \<Rightarrow> ('a \<Rightarrow> double) \<Rightarrow> 'a Vector \<Rightarrow> double \<Rightarrow> 'a Vector" where
  "operator_times_Scalar fromS toS a s = Vector (map (\<lambda>elem. fromS (s * toS elem)) (vec a))"

text \<open>
  \<^verbatim>\<open>x\<close>, the cross product, exists only for \<^verbatim>\<open>Dim == 3\<close> and takes a
  \<^verbatim>\<open>Vector<Scalar, 3>\<close>; each product has a \<open>T\<close> on the left and a \<^verbatim>\<open>Scalar\<close> on the right.
\<close>

definition x_Vector :: "('a \<Rightarrow> double) \<Rightarrow> 'a Vector \<Rightarrow> double Vector \<Rightarrow> double Vector option" where
  "x_Vector toS a other =
     do {
       a0 \<leftarrow> operator_index (vec a) 0;
       a1 \<leftarrow> operator_index (vec a) 1;
       a2 \<leftarrow> operator_index (vec a) 2;
       b0 \<leftarrow> operator_index (vec other) 0;
       b1 \<leftarrow> operator_index (vec other) 1;
       b2 \<leftarrow> operator_index (vec other) 2;
       Vector_ctor 3
         [toS a1 * b2 - toS a2 * b1,
          toS a2 * b0 - toS a0 * b2,
          toS a0 * b1 - toS a1 * b0]
     }"

text \<open>A loop index below its bound does not wrap around when it is incremented.\<close>

lemma unat_inc: "i < (n::'a::len word) \<Longrightarrow> unat (i + 1) = Suc (unat i)"
proof -
  assume "i < n"
  then have "unat i < unat n"
    by (simp add: word_less_nat_alt)
  moreover have "unat n < 2 ^ LENGTH('a)"
    by (rule unsigned_less)
  ultimately have "Suc (unat i) < 2 ^ LENGTH('a)"
    by linarith
  then have "unat i + unat (1::'a word) < 2 ^ LENGTH('a)"
    by simp
  then have "unat (i + 1) = unat i + unat (1::'a word)"
    by (simp only: unat_add_lem)
  then show ?thesis
    by simp
qed

lemma loop_measure: "i < (n::'a::len word) \<Longrightarrow> unat n - unat (i + 1) < unat n - unat i"
  by (simp add: unat_inc [of i n] word_less_nat_alt diff_less_mono2)

text \<open>
  \<^verbatim>\<open>operator*(const Vector& other)\<close>, the dot product: \<^verbatim>\<open>ret\<close> is a \<^verbatim>\<open>Scalar\<close> that starts
  at \<open>0.0\<close>; each product is formed in \<open>T\<close> and converted when it is added to \<^verbatim>\<open>ret\<close>.
\<close>

function dot_loop ::
  "('a::times \<Rightarrow> double) \<Rightarrow> 'a list \<Rightarrow> 'a list \<Rightarrow> size_t \<Rightarrow> double \<Rightarrow> double option" where
  "dot_loop toS v w i ret =
     (if i < vec_size v
      then do {
             x \<leftarrow> operator_index v i;
             y \<leftarrow> operator_index w i;
             dot_loop toS v w (i + 1) (ret + toS (x * y))
           }
      else Some ret)"
  by pat_completeness auto
termination
  by (relation "measure (\<lambda>(toS, v, w, i, ret). unat (vec_size v) - unat i)")
    (auto intro: loop_measure)

definition operator_times_Vector ::
  "('a::times \<Rightarrow> double) \<Rightarrow> 'a Vector \<Rightarrow> 'a Vector \<Rightarrow> double option" where
  "operator_times_Vector toS a other = dot_loop toS (vec a) (vec other) 0 0"

text \<open>\<^verbatim>\<open>length()\<close> runs its own loop over \<^verbatim>\<open>vec[i]*vec[i]\<close> and returns \<^verbatim>\<open>std::sqrt(ret)\<close>.\<close>

function length_loop ::
  "('a::times \<Rightarrow> double) \<Rightarrow> 'a list \<Rightarrow> size_t \<Rightarrow> double \<Rightarrow> double option" where
  "length_loop toS v i ret =
     (if i < vec_size v
      then do {
             x \<leftarrow> operator_index v i;
             y \<leftarrow> operator_index v i;
             length_loop toS v (i + 1) (ret + toS (x * y))
           }
      else Some ret)"
  by pat_completeness auto
termination
  by (relation "measure (\<lambda>(toS, v, i, ret). unat (vec_size v) - unat i)")
    (auto intro: loop_measure)

definition length_Vector :: "('a::times \<Rightarrow> double) \<Rightarrow> 'a Vector \<Rightarrow> double option" where
  "length_Vector toS a = map_option sqrt_double (length_loop toS (vec a) 0 0)"

text \<open>
  \<^verbatim>\<open>toString()\<close>: the loop bound \<^verbatim>\<open>vec.size()-1\<close> and the index of the last component
  are computed in \<^verbatim>\<open>size_t\<close>.  \<open>to_string\<close> is \<^verbatim>\<open>std::to_string\<close> at the type \<open>T\<close>.
\<close>

function toString_loop ::
  "('a \<Rightarrow> string) \<Rightarrow> 'a list \<Rightarrow> size_t \<Rightarrow> string \<Rightarrow> string option" where
  "toString_loop to_string v i str =
     (if i < vec_size v - 1
      then do {
             c \<leftarrow> operator_index v i;
             toString_loop to_string v (i + 1) (str @ to_string c @ '', '')
           }
      else Some str)"
  by pat_completeness auto
termination
  by (relation "measure (\<lambda>(to_string, v, i, str). unat (vec_size v - 1) - unat i)")
    (auto intro: loop_measure)

definition toString :: "('a \<Rightarrow> string) \<Rightarrow> 'a Vector \<Rightarrow> string option" where
  "toString to_string a =
     do {
       str \<leftarrow> toString_loop to_string (vec a) 0 ''[ '';
       c \<leftarrow> operator_index (vec a) (vec_size (vec a) - 1);
       Some (str @ to_string c @ '' ]'')
     }"

text \<open>\<^verbatim>\<open>operator<<\<close>: the stream is the text written to it so far.\<close>

definition operator_shift_left :: "('a \<Rightarrow> string) \<Rightarrow> string \<Rightarrow> 'a Vector \<Rightarrow> string option" where
  "operator_shift_left to_string os v = map_option (\<lambda>s. os @ s) (toString to_string v)"

declare dot_loop.simps [simp del] length_loop.simps [simp del] toString_loop.simps [simp del]

section \<open>Auxiliary notions\<close>

text \<open>\<^verbatim>\<open>std::isfinite\<close>, and the values that are neither a NaN nor negative.\<close>

definition isfinite :: "double \<Rightarrow> bool" where
  "isfinite d = (case d of Finite s m e \<Rightarrow> True | Infinity s \<Rightarrow> False | NaN \<Rightarrow> False)"

definition nonneg :: "double \<Rightarrow> bool" where
  "nonneg d = (case d of Finite s m e \<Rightarrow> \<not> s | Infinity s \<Rightarrow> \<not> s | NaN \<Rightarrow> False)"

text \<open>The texts \<open>xs\<close>, joined by the separator \<open>sep\<close>.\<close>

fun join :: "string \<Rightarrow> string list \<Rightarrow> string" where
  "join sep [] = []"
| "join sep [x] = x"
| "join sep (x # y # ys) = x @ sep @ join sep (y # ys)"

text \<open>
  The real number a finite double stands for (an infinity and a NaN stand for none: the
  \<open>0\<close> given for them is never used), and the real numbers that are finite doubles:
  those of magnitude \<open>m * 2^e\<close> with \<open>m < 2^53\<close> and \<open>-1074 \<le> e \<le> 971\<close>.
\<close>

definition valof :: "double \<Rightarrow> real" where
  "valof d = (case d of Finite s m e \<Rightarrow> (if s then - 1 else 1) * real m * 2 powi e
              | Infinity s \<Rightarrow> 0 | NaN \<Rightarrow> 0)"

definition representable :: "real \<Rightarrow> bool" where
  "representable x \<longleftrightarrow>
     (\<exists>m e. m < (2::nat) ^ 53 \<and> - 1074 \<le> e \<and> e \<le> (971::int) \<and> \<bar>x\<bar> = real m * 2 powi e)"

text \<open>
  The Euclidean norm in the words of the specification: the non-negative real square
  root of the sum of the squares of the components.
\<close>

definition euclidean_norm :: "double list \<Rightarrow> real" where
  "euclidean_norm v = sqrt (\<Sum>x\<leftarrow>v. (valof x)\<^sup>2)"

text \<open>
  The vectors whose norm \<^verbatim>\<open>length()\<close> can compute without rounding: the components are
  finite, and the square of every component, every sum of the squares of the first \<open>k\<close>
  components and the norm itself are finite doubles.
\<close>

definition exact_steps :: "double list \<Rightarrow> bool" where
  "exact_steps v \<longleftrightarrow>
     (\<forall>x\<in>set v. isfinite x \<and> representable ((valof x)\<^sup>2))
     \<and> (\<forall>k\<le>length v. representable (\<Sum>x\<leftarrow>take k v. (valof x)\<^sup>2))
     \<and> representable (euclidean_norm v)"

text \<open>
  An integer component type: \<open>T = int\<close>, 32 bits in two's complement.  The conversion to
  \<^verbatim>\<open>double\<close> is exact; the conversion from \<^verbatim>\<open>double\<close> truncates towards zero.  Where the
  truncated value does not fit (and for an infinity or a NaN) the behaviour is undefined
  in C++; the result given here is that of the x86-64 conversion instruction.
\<close>

definition Scalar_of_int32 :: "32 word \<Rightarrow> double" where
  "Scalar_of_int32 i = double_of_int (sint i)"

fun int32_of_Scalar :: "double \<Rightarrow> 32 word" where
  "int32_of_Scalar (Finite s m e) =
     (let t = signed_nat s (if 0 \<le> e then m * 2 ^ nat e else m div 2 ^ nat (- e))
      in if - (2 ^ 31) \<le> t \<and> t < 2 ^ 31 then word_of_int t else - (2 ^ 31))"
| "int32_of_Scalar (Infinity s) = - (2 ^ 31)"
| "int32_of_Scalar NaN = - (2 ^ 31)"

section \<open>The parts of the arithmetic\<close>

text \<open>
  \<open>bitlen\<close> counts the binary digits, \<open>normalise\<close> keeps the value and leaves an odd
  significand, \<open>round_half_even\<close> is off by at most a half, and \<open>isqrt\<close> is the floor of
  the square root.
\<close>

lemma bitlen_bounds: "m < 2 ^ bitlen m \<and> (0 < m \<longrightarrow> 2 ^ (bitlen m - 1) \<le> m)"
proof (induction m rule: bitlen.induct)
  case (1 m)
  show ?case
  proof (cases "m = 0")
    case True
    then show ?thesis by (subst bitlen.simps) simp
  next
    case False
    with 1 have IH: "m div 2 < 2 ^ bitlen (m div 2)"
      "0 < m div 2 \<longrightarrow> 2 ^ (bitlen (m div 2) - 1) \<le> m div 2"
      by simp_all
    have eq: "bitlen m = Suc (bitlen (m div 2))"
      using False by (subst bitlen.simps) simp
    have "m < 2 * 2 ^ bitlen (m div 2)"
      using IH(1) by linarith
    moreover have "2 ^ bitlen (m div 2) \<le> m"
    proof (cases "m div 2 = 0")
      case True
      then have "bitlen (m div 2) = 0" by (subst bitlen.simps) simp
      then show ?thesis using False by simp
    next
      case False
      then have "2 ^ (bitlen (m div 2) - 1) \<le> m div 2" using IH(2) by simp
      moreover have "bitlen (m div 2) \<noteq> 0"
        using False by (subst bitlen.simps) simp
      then have "(2::nat) ^ bitlen (m div 2) = 2 * 2 ^ (bitlen (m div 2) - 1)"
        by (cases "bitlen (m div 2)") simp_all
      ultimately show ?thesis by linarith
    qed
    ultimately show ?thesis
      by (simp add: eq)
  qed
qed

lemma normalise_value:
  "normalise m e = (m', e') \<Longrightarrow> 0 < m \<Longrightarrow> e \<le> e' \<and> m = m' * 2 ^ nat (e' - e) \<and> odd m'"
proof (induction m e arbitrary: m' e' rule: normalise.induct)
  case (1 m e)
  show ?case
  proof (cases "even m")
    case True
    with 1(3) have pos: "0 < m div 2"
      by (auto elim: evenE)
    have "normalise (m div 2) (e + 1) = (m', e')"
      using 1(2,3) True by (subst (asm) normalise.simps) simp
    with 1(1) [of m' e'] 1(3) True pos
    have IH: "e + 1 \<le> e'" "m div 2 = m' * 2 ^ nat (e' - (e + 1))" "odd m'"
      by simp_all
    have "nat (e' - e) = Suc (nat (e' - (e + 1)))"
      using IH(1) by linarith
    then have "m' * 2 ^ nat (e' - e) = 2 * (m div 2)"
      using IH(2) by simp
    also have "2 * (m div 2) = m"
      using True by simp
    finally show ?thesis
      using IH(1,3) by simp
  next
    case False
    then have "normalise m e = (m, e)"
      using 1(3) by (subst normalise.simps) simp
    with 1(2) False show ?thesis
      by simp
  qed
qed

lemma isqrt_floor: "isqrt n * isqrt n \<le> n \<and> n < (isqrt n + 1) * (isqrt n + 1)"
proof (induction n rule: isqrt.induct)
  case (1 n)
  show ?case
  proof (cases "n < 2")
    case True
    then have "isqrt n = n"
      by (subst isqrt.simps) simp
    then show ?thesis
      using True by simp
  next
    case False
    define q where "q = isqrt (n div 4)"
    from False 1 have IH: "q * q \<le> n div 4" "n div 4 < (q + 1) * (q + 1)"
      by (simp_all add: q_def)
    have eq: "isqrt n = isqrt_step (2 * q) n"
      using False by (subst isqrt.simps) (simp add: q_def)
    have lo: "(2 * q) * (2 * q) \<le> n"
      using IH(1) by (simp add: algebra_simps)
    have "n div 4 + 1 \<le> (q + 1) * (q + 1)"
      using IH(2) by simp
    then have "4 * (n div 4) + 4 \<le> (2 * q + 2) * (2 * q + 2)"
      by (simp add: algebra_simps)
    then have hi: "n < (2 * q + 2) * (2 * q + 2)"
      by linarith
    show ?thesis
      using lo hi by (simp add: eq isqrt_step_def not_le)
  qed
qed

lemma round_half_even_nearest:
  assumes "0 < d"
  shows "\<bar>2 * int m - 2 * int (round_half_even m d * d)\<bar> \<le> int d"
proof -
  define q r where "q = m div d" and "r = m mod d"
  have m: "int m = int q * int d + int r"
    unfolding q_def r_def by (metis div_mult_mod_eq of_nat_add of_nat_mult)
  have r: "r < d"
    unfolding r_def using assms by simp
  show ?thesis
  proof (cases "d < 2 * r \<or> (2 * r = d \<and> odd q)")
    case True
    then have "round_half_even m d = q + 1"
      by (simp add: round_half_even_def q_def r_def Let_def)
    moreover have "int d \<le> 2 * int r"
      using True by linarith
    ultimately show ?thesis
      using r by (simp add: m algebra_simps)
  next
    case False
    then have "round_half_even m d = q"
      by (simp add: round_half_even_def q_def r_def Let_def)
    moreover have "2 * int r \<le> int d"
      using False by linarith
    ultimately show ?thesis
      by (simp add: m algebra_simps)
  qed
qed

section \<open>Evaluation of the arithmetic\<close>

text \<open>The recursive functions on literals: one step for each binary digit.\<close>

lemma bitlen_eval:
  "bitlen 0 = 0"
  "bitlen (Suc 0) = Suc 0"
  "bitlen (numeral (num.Bit0 n)) = Suc (bitlen (numeral n))"
  "bitlen (numeral (num.Bit1 n)) = Suc (bitlen (numeral n))"
  by (subst bitlen.simps, simp)+

lemma normalise_eval:
  "normalise 0 e = (0, 0)"
  "normalise (Suc 0) e = (Suc 0, e)"
  "normalise (numeral (num.Bit0 n)) e = normalise (numeral n) (e + 1)"
  "normalise (numeral (num.Bit1 n)) e = (numeral (num.Bit1 n), e)"
  by (subst normalise.simps, simp)+

lemma isqrt_eval:
  "isqrt 0 = 0"
  "isqrt (Suc 0) = Suc 0"
  "isqrt (numeral n) =
     (if numeral n < (2::nat) then numeral n
      else isqrt_step (2 * isqrt (numeral n div 4)) (numeral n))"
  by (subst isqrt.simps, simp)+

lemma digits_eval:
  "digits 0 = [digit 0]"
  "digits (Suc 0) = [digit 1]"
  "digits (numeral n) =
     (if numeral n < (10::nat) then [digit (numeral n)]
      else digits (numeral n div 10) @ [digit (numeral n mod 10)])"
  by (subst digits.simps, simp)+

lemmas double_eval =
  zero_double_def minus_double_def double_of_int_def round_double_def round_half_even_def
  signed_nat_def isqrt_step_def bitlen_eval normalise_eval isqrt_eval Let_def

lemma index_3:
  "operator_index [a0, a1, a2] 0 = Some a0"
  "operator_index [a0, a1, a2] 1 = Some a1"
  "operator_index [a0, a1, a2] 2 = Some a2"
  by (simp_all add: operator_index_def)

section \<open>The cross product\<close>

text \<open>
  C1.  For three-dimensional vectors \<open>a\<close> and \<open>b\<close> the member function \<^verbatim>\<open>x\<close> returns the
  vector with the components \<open>a1*b2 - a2*b1\<close>, \<open>a2*b0 - a0*b2\<close> and \<open>a0*b1 - a1*b0\<close>, in
  the arithmetic of \<^verbatim>\<open>double\<close>; \<^verbatim>\<open>Vector3d(1,0,0)\<close> cross \<^verbatim>\<open>Vector3d(0,1,0)\<close> is
  \<^verbatim>\<open>Vector3d(0,0,1)\<close>.
\<close>

theorem x_Vector_components:
  "x_Vector toS (Vector [a0, a1, a2]) (Vector [b0, b1, b2]) =
     Some (Vector [toS a1 * b2 - toS a2 * b1,
                   toS a2 * b0 - toS a0 * b2,
                   toS a0 * b1 - toS a1 * b0])
   \<and> x_Vector (\<lambda>t. t)
       (Vector [double_of_int 1, double_of_int 0, double_of_int 0])
       (Vector [double_of_int 0, double_of_int 1, double_of_int 0]) =
     Some (Vector [double_of_int 0, double_of_int 0, double_of_int 1])"
  by (simp add: x_Vector_def index_3 Vector_ctor_def double_eval)

section \<open>The loops\<close>

lemma unat_vec_size: "length v < 2 ^ 64 \<Longrightarrow> unat (vec_size v) = length v"
  by (simp add: vec_size_def unat_of_nat)

lemma less_vec_size: "length v < 2 ^ 64 \<Longrightarrow> i < vec_size v \<longleftrightarrow> unat i < length v"
  by (simp add: word_less_nat_alt unat_vec_size)

lemma dot_loop_run:
  assumes len: "length w = length v" and small: "length v < 2 ^ 64"
  shows "unat i \<le> length v \<Longrightarrow>
    dot_loop toS v w i ret =
      Some (foldl (\<lambda>r (x, y). r + toS (x * y)) ret (drop (unat i) (zip v w)))"
proof (induction "length v - unat i" arbitrary: i ret)
  case 0
  then have "\<not> i < vec_size v"
    using small by (simp add: less_vec_size)
  moreover have "drop (unat i) (zip v w) = []"
    using 0 len by simp
  ultimately show ?case
    by (subst dot_loop.simps) simp
next
  case (Suc k)
  then have lt: "unat i < length v"
    by linarith
  then have cond: "i < vec_size v"
    using small by (simp add: less_vec_size)
  have next_i: "unat (i + 1) = Suc (unat i)"
    using cond by (rule unat_inc)
  have step: "drop (unat i) (zip v w) =
      (v ! unat i, w ! unat i) # drop (unat (i + 1)) (zip v w)"
    using lt len by (simp add: next_i Cons_nth_drop_Suc [symmetric])
  have "dot_loop toS v w (i + 1) (ret + toS (v ! unat i * w ! unat i)) =
      Some (foldl (\<lambda>r (x, y). r + toS (x * y)) (ret + toS (v ! unat i * w ! unat i))
        (drop (unat (i + 1)) (zip v w)))"
    using Suc.hyps(2) lt by (intro Suc.hyps(1)) (simp_all add: next_i)
  then show ?case
    using cond lt len by (subst dot_loop.simps) (simp add: operator_index_def step)
qed

lemma zip_by_index:
  "length w = length v \<Longrightarrow>
     map (\<lambda>(x, y). f x y) (zip v w) = map (\<lambda>i. f (v ! i) (w ! i)) [0..<length v]"
  by (rule nth_equalityI) simp_all

lemma dot_sum:
  assumes "length w = length v" and "length v < 2 ^ 64"
  shows "dot_loop toS v w 0 ret =
    Some (foldl (+) ret (map (\<lambda>i. toS (v ! i * w ! i)) [0..<length v]))"
proof -
  have "dot_loop toS v w 0 ret = Some (foldl (\<lambda>r (x, y). r + toS (x * y)) ret (zip v w))"
    using dot_loop_run [OF assms, of 0 toS ret] by simp
  also have "foldl (\<lambda>r (x, y). r + toS (x * y)) ret (zip v w) =
      foldl (+) ret (map (\<lambda>(x, y). toS (x * y)) (zip v w))"
    by (simp add: foldl_map case_prod_unfold)
  also have "map (\<lambda>(x, y). toS (x * y)) (zip v w) = map (\<lambda>i. toS (v ! i * w ! i)) [0..<length v]"
    using assms(1) by (rule zip_by_index)
  finally show ?thesis .
qed

lemma length_loop_dot_loop: "length_loop toS v i ret = dot_loop toS v v i ret"
proof (induction toS v i ret rule: length_loop.induct)
  case (1 toS v i ret)
  show ?case
    by (subst length_loop.simps, subst dot_loop.simps) (simp add: 1 cong: Option.bind_cong)
qed

lemma upt_3: "[0..<3] = [0, 1, 2]"
  by (simp add: upt_rec)

section \<open>The dot product\<close>

text \<open>
  C2.  For two vectors of the same dimension, \<^verbatim>\<open>operator*\<close> on a vector returns a scalar,
  the sum over \<open>i\<close> in \<open>[0, Dim)\<close> of \<open>a[i]*b[i]\<close>, added up from \<open>0.0\<close> in the order of
  the indices; \<^verbatim>\<open>Vector3d(1,2,3)\<close> dot \<^verbatim>\<open>Vector3d(4,5,6)\<close> is \<open>32.0\<close>.
\<close>

theorem operator_times_Vector_sum:
  "(length (vec other) = length (vec a) \<longrightarrow> length (vec a) < 2 ^ 64 \<longrightarrow>
      operator_times_Vector toS a other =
        Some (foldl (+) 0 (map (\<lambda>i. toS (vec a ! i * vec other ! i)) [0..<length (vec a)])))
   \<and> operator_times_Vector (\<lambda>t. t)
       (Vector [double_of_int 1, double_of_int 2, double_of_int 3])
       (Vector [double_of_int 4, double_of_int 5, double_of_int 6]) =
     Some (double_of_int 32)"
proof (intro conjI impI)
  assume "length (vec other) = length (vec a)" and "length (vec a) < 2 ^ 64"
  then show "operator_times_Vector toS a other =
      Some (foldl (+) 0 (map (\<lambda>i. toS (vec a ! i * vec other ! i)) [0..<length (vec a)]))"
    unfolding operator_times_Vector_def by (rule dot_sum)
next
  have "dot_loop (\<lambda>t. t) [Finite False 1 0, Finite False 1 1, Finite False 3 0]
      [Finite False 1 2, Finite False 5 0, Finite False 3 1] 0 0 = Some (Finite False 1 5)"
    by (subst dot_sum) (simp_all add: upt_3 double_eval)
  then show "operator_times_Vector (\<lambda>t. t)
       (Vector [double_of_int 1, double_of_int 2, double_of_int 3])
       (Vector [double_of_int 4, double_of_int 5, double_of_int 6]) =
     Some (double_of_int 32)"
    by (simp add: operator_times_Vector_def double_eval)
qed

theorem operator_times_Vector_sum_witness:
  "operator_times_Vector (\<lambda>t. t) (Vector [double_of_int 7, double_of_int 1])
     (Vector [double_of_int 3, double_of_int 2]) = Some (double_of_int 23)"
  using operator_times_Vector_sum [THEN conjunct1,
      of "Vector [double_of_int 3, double_of_int 2]"
         "Vector [double_of_int 7, double_of_int 1]" "\<lambda>t. t"]
  by (simp add: upt_rec double_eval)

section \<open>The length\<close>

lemma nonneg_round: "nonneg (round_double False m e)"
  by (simp add: round_double_def nonneg_def Let_def split: prod.split)

lemma nonneg_square: "x \<noteq> NaN \<Longrightarrow> nonneg (x * x)"
  by (cases x) (simp_all add: nonneg_def nonneg_round [unfolded nonneg_def])

lemma nonneg_plus: "nonneg x \<Longrightarrow> nonneg y \<Longrightarrow> nonneg (x + y)"
proof (cases x; cases y)
  fix s1 m1 e1 s2 m2 e2
  assume "nonneg x" "nonneg y" and x: "x = Finite s1 m1 e1" and y: "y = Finite s2 m2 e2"
  then have s: "\<not> s1" "\<not> s2"
    by (simp_all add: nonneg_def)
  have "\<not> int m1 * 2 ^ nat (e1 - min e1 e2) + int m2 * 2 ^ nat (e2 - min e1 e2) < 0"
    by (simp add: not_less)
  then show "nonneg (x + y)"
    using s by (simp add: x y Let_def signed_nat_def nonneg_round) (simp add: nonneg_def)
qed (simp_all add: nonneg_def)

lemma nonneg_sqrt: "nonneg x \<Longrightarrow> nonneg (sqrt_double x)"
  by (cases x) (simp_all add: nonneg_def Let_def nonneg_round [unfolded nonneg_def])

lemma nonneg_ge_0: "nonneg x \<Longrightarrow> 0 \<le> x"
  by (cases x) (simp_all add: nonneg_def zero_double_def signed_nat_def)

lemma nonneg_foldl:
  "nonneg r \<Longrightarrow> \<forall>x\<in>set xs. nonneg x \<Longrightarrow> nonneg (foldl (+) r xs)"
  by (induction xs arbitrary: r) (simp_all add: nonneg_plus)

lemma zero_foldl: "\<forall>x\<in>set xs. x = 0 \<Longrightarrow> foldl (+) (0::double) xs = 0"
  by (induction xs) (simp_all add: zero_double_def Let_def signed_nat_def)

text \<open>
  Where the exact result of an operation is a finite double, the operation returns it:
  rounding leaves a representable value as it is.
\<close>

lemma two_powi_add: "(2::real) powi (a + b) = 2 powi a * 2 powi b"
  by (simp add: power_int_add)

lemma two_powi_shift: "a \<le> b \<Longrightarrow> (2::real) powi b = 2 powi a * 2 ^ nat (b - a)"
proof -
  assume "a \<le> b"
  then have "b = a + int (nat (b - a))"
    by simp
  then have "(2::real) powi b = 2 powi (a + int (nat (b - a)))"
    by simp
  then show ?thesis
    by (simp only: two_powi_add power_int_of_nat)
qed

lemma bitlen_le: "m < 2 ^ k \<Longrightarrow> bitlen m \<le> k"
proof (cases "m = 0")
  case True
  then show ?thesis by (subst bitlen.simps) simp
next
  case False
  assume "m < 2 ^ k"
  moreover have "2 ^ (bitlen m - 1) \<le> m"
    using False bitlen_bounds [of m] by simp
  ultimately have "(2::nat) ^ (bitlen m - 1) < 2 ^ k"
    by linarith
  then have "bitlen m - 1 < k"
    by simp
  then show ?thesis
    by linarith
qed

lemma bitlen_pos: "0 < m \<Longrightarrow> 0 < bitlen m"
  by (subst bitlen.simps) simp

lemma normalise_valof:
  assumes "0 < m" and "normalise m e = (m', e')"
  shows "real m' * 2 powi e' = real m * 2 powi e"
proof -
  from normalise_value [OF assms(2) assms(1)]
  have le: "e \<le> e'" and m: "m = m' * 2 ^ nat (e' - e)"
    by simp_all
  have "real m = real (m' * 2 ^ nat (e' - e))"
    using m by simp
  then show ?thesis
    by (simp add: two_powi_shift [OF le])
qed


lemma value_ge:
  assumes "0 < m"
  shows "2 powi (int (bitlen m) - 1 + e) \<le> real m * 2 powi e"
proof -
  have "0 < bitlen m"
    using assms by (rule bitlen_pos)
  then have "int (bitlen m) - 1 = int (bitlen m - 1)"
    by simp
  then have "(2::real) powi (int (bitlen m) - 1 + e) = 2 ^ (bitlen m - 1) * 2 powi e"
    by (simp only: two_powi_add power_int_of_nat)
  moreover have "(2::real) ^ (bitlen m - 1) \<le> real m"
    using bitlen_bounds [of m] assms
    by (metis of_nat_le_iff of_nat_numeral of_nat_power)
  ultimately show ?thesis
    by (simp add: mult_right_mono)
qed

lemma no_overflow:
  assumes "0 < q" and "real q * 2 powi E < 2 powi 1024"
  shows "\<not> 1024 < int (bitlen q) + E"
proof
  assume "1024 < int (bitlen q) + E"
  then have "(2::real) powi 1024 \<le> 2 powi (int (bitlen q) - 1 + E)"
    by (intro power_int_increasing) simp_all
  also have "\<dots> \<le> real q * 2 powi E"
    using assms(1) by (rule value_ge)
  finally show False
    using assms(2) by simp
qed

lemma round_half_even_dvd: "0 < d \<Longrightarrow> d dvd m \<Longrightarrow> round_half_even m d = m div d"
  by (auto simp: round_half_even_def Let_def)

lemma finite_normalise:
  assumes "0 < q" and "real q * 2 powi E < 2 powi 1024"
  shows "\<exists>m' e'. (if 1024 < int (bitlen q) + E then Infinity s
            else case normalise q E of (m', e'') \<Rightarrow> Finite s m' e'') = Finite s m' e'
          \<and> real m' * 2 powi e' = real q * 2 powi E"
proof -
  obtain m' e' where n: "normalise q E = (m', e')"
    by (cases "normalise q E")
  then have "real m' * 2 powi e' = real q * 2 powi E"
    using assms(1) by (intro normalise_valof)
  then show ?thesis
    using no_overflow [OF assms] n by simp
qed

text \<open>Rounding a value that is representable leaves it as it is.\<close>

lemma round_double_exact:
  assumes pos: "0 < m"
    and m0: "m0 < 2 ^ 53" and lo: "- 1074 \<le> e0" and hi: "e0 \<le> 971"
    and eq: "real m * 2 powi e = real m0 * 2 powi e0"
  shows "\<exists>m' e'. round_double s m e = Finite s m' e' \<and> real m' * 2 powi e' = real m * 2 powi e"
proof -
  define k where "k = bitlen m"
  define e' where "e' = max (e + int k - 53) (- 1074)"
  have lt53: "real m0 * 2 powi e0 < 2 powi (53 + e0)"
  proof -
    have "real m0 < 2 ^ 53"
      using m0 by (simp add: of_nat_less_numeral_power_cancel_iff)
    then have "real m0 * 2 powi e0 < 2 ^ 53 * 2 powi e0"
      by (simp add: mult_strict_right_mono)
    then show ?thesis
      by (simp add: two_powi_add)
  qed
  have val_lt: "real m * 2 powi e < 2 powi 1024"
  proof -
    have "(2::real) powi (53 + e0) \<le> 2 powi 1024"
      using hi by (intro power_int_increasing) simp_all
    then show ?thesis
      using lt53 by (simp add: eq)
  qed
  show ?thesis
  proof (cases "e' \<le> e")
    case True
    then have "round_double s m e =
        (if 1024 < int (bitlen m) + e then Infinity s
         else case normalise m e of (m', e'') \<Rightarrow> Finite s m' e'')"
      by (simp add: round_double_def Let_def e'_def k_def)
    then show ?thesis
      using finite_normalise [OF pos val_lt, of s] by simp
  next
    case False
    then have gt: "e < e'"
      by simp
    define d :: nat where "d = 2 ^ nat (e' - e)"
    have dvd: "d dvd m"
    proof (cases "e' \<le> e0")
      case True
      then have "e \<le> e0"
        using gt by simp
      then have "real m * 2 powi e = real (m0 * 2 ^ nat (e0 - e)) * 2 powi e"
        by (simp add: eq two_powi_shift [of e e0])
      then have "m = m0 * 2 ^ nat (e0 - e)"
        by (simp only: mult_cancel_right of_nat_eq_iff) simp
      moreover have "nat (e0 - e) = nat (e0 - e') + nat (e' - e)"
        using True gt by simp
      ultimately have "m = m0 * 2 ^ nat (e0 - e') * d"
        by (simp add: d_def power_add)
      then show ?thesis
        by simp
    next
      case False
      then have "e' = e + int k - 53" and "e0 + 1 \<le> e'"
        using lo by (simp_all add: e'_def)
      then have "(2::real) powi (53 + e0) \<le> 2 powi (int k - 1 + e)"
        by (intro power_int_increasing) simp_all
      also have "\<dots> \<le> real m * 2 powi e"
        unfolding k_def using pos by (rule value_ge)
      finally show ?thesis
        using lt53 by (simp add: eq)
    qed
    have dpos: "0 < d"
      by (simp add: d_def)
    define q where "q = m div d"
    have m: "m = q * d"
      using dvd by (simp add: q_def)
    have qpos: "0 < q"
      using pos m by (cases "q = 0") simp_all
    have val: "real q * 2 powi e' = real m * 2 powi e"
      using gt by (simp add: m d_def two_powi_shift [of e e'])
    have "round_double s m e =
        (if 1024 < int (bitlen q) + e' then Infinity s
         else case normalise q e' of (m', e'') \<Rightarrow> Finite s m' e'')"
      using gt dvd dpos
      by (simp add: round_double_def Let_def e'_def [symmetric] k_def [symmetric]
          d_def [symmetric] round_half_even_dvd q_def)
    then show ?thesis
      using finite_normalise [of q e' s] qpos val val_lt by simp
  qed
qed


lemma valof_Finite: "valof (Finite s m e) = (if s then - 1 else 1) * real m * 2 powi e"
  by (simp add: valof_def)

lemma isfiniteE:
  assumes "isfinite x"
  obtains s m e where "x = Finite s m e"
  using assms by (cases x) (simp_all add: isfinite_def)

lemma isfinite_Finite: "isfinite (Finite s m e)"
  by (simp add: isfinite_def)

lemma representableE:
  assumes "representable x"
  obtains m0 e0 where "m0 < 2 ^ 53" "- 1074 \<le> e0" "e0 \<le> 971" "\<bar>x\<bar> = real m0 * 2 powi e0"
  using assms unfolding representable_def by blast

lemma times_exact:
  assumes "isfinite x" and "isfinite y" and rep: "representable (valof x * valof y)"
  shows "isfinite (x * y) \<and> valof (x * y) = valof x * valof y"
proof -
  from assms(1) obtain s1 m1 e1 where x: "x = Finite s1 m1 e1"
    by (rule isfiniteE)
  from assms(2) obtain s2 m2 e2 where y: "y = Finite s2 m2 e2"
    by (rule isfiniteE)
  define sg where "sg = (s1 \<noteq> s2)"
  show ?thesis
  proof (cases "m1 * m2 = 0")
    case True
    then show ?thesis
      by (auto simp: x y valof_Finite isfinite_Finite)
  next
    case False
    from rep obtain m0 e0 where m0: "m0 < 2 ^ 53" "- 1074 \<le> e0" "e0 \<le> 971"
      and abs: "\<bar>valof x * valof y\<bar> = real m0 * 2 powi e0"
      by (rule representableE)
    have "\<bar>valof x * valof y\<bar> = real (m1 * m2) * 2 powi (e1 + e2)"
      by (simp add: x y valof_Finite abs_mult two_powi_add)
    with abs have "real (m1 * m2) * 2 powi (e1 + e2) = real m0 * 2 powi e0"
      by simp
    with False m0 obtain m' e' where
      r: "round_double sg (m1 * m2) (e1 + e2) = Finite sg m' e'"
      and v: "real m' * 2 powi e' = real (m1 * m2) * 2 powi (e1 + e2)"
      using round_double_exact [of "m1 * m2" m0 e0 "e1 + e2" sg] by auto
    have "x * y = round_double sg (m1 * m2) (e1 + e2)"
      unfolding x y sg_def using False by (simp only: times_double.simps if_False)
    then have xy: "x * y = Finite sg m' e'"
      by (simp only: r)
    have "valof (x * y) = (if sg then - 1 else 1) * (real m' * 2 powi e')"
      by (simp add: xy valof_Finite)
    also have "\<dots> = valof x * valof y"
      by (simp add: v x y valof_Finite two_powi_add sg_def)
    finally show ?thesis
      by (simp add: xy isfinite_Finite)
  qed
qed

lemma valof_signed:
  "e \<le> e1 \<Longrightarrow> valof (Finite s1 m1 e1) = real_of_int (signed_nat s1 m1 * 2 ^ nat (e1 - e)) * 2 powi e"
  by (simp add: valof_Finite signed_nat_def two_powi_shift [of e e1])

lemma plus_exact:
  assumes "isfinite x" and "isfinite y" and rep: "representable (valof x + valof y)"
  shows "isfinite (x + y) \<and> valof (x + y) = valof x + valof y"
proof -
  from assms(1) obtain s1 m1 e1 where x: "x = Finite s1 m1 e1"
    by (rule isfiniteE)
  from assms(2) obtain s2 m2 e2 where y: "y = Finite s2 m2 e2"
    by (rule isfiniteE)
  define e where "e = min e1 e2"
  define M where "M = signed_nat s1 m1 * 2 ^ nat (e1 - e) + signed_nat s2 m2 * 2 ^ nat (e2 - e)"
  have sum: "valof x + valof y = real_of_int M * 2 powi e"
    by (simp add: x y M_def valof_signed [of e e1] valof_signed [of e e2] e_def algebra_simps)
  have plus: "x + y = (if M = 0 then Finite (s1 \<and> s2) 0 0
      else round_double (M < 0) (nat \<bar>M\<bar>) e)"
    by (simp add: x y Let_def M_def e_def)
  show ?thesis
  proof (cases "M = 0")
    case True
    then show ?thesis
      by (simp add: plus sum valof_Finite isfinite_Finite)
  next
    case False
    from rep obtain m0 e0 where m0: "m0 < 2 ^ 53" "- 1074 \<le> e0" "e0 \<le> 971"
      and abs: "\<bar>valof x + valof y\<bar> = real m0 * 2 powi e0"
      by (rule representableE)
    have "\<bar>valof x + valof y\<bar> = real (nat \<bar>M\<bar>) * 2 powi e"
      by (simp add: sum abs_mult)
    with abs have "real (nat \<bar>M\<bar>) * 2 powi e = real m0 * 2 powi e0"
      by simp
    with False m0 obtain m' e' where
      r: "round_double (M < 0) (nat \<bar>M\<bar>) e = Finite (M < 0) m' e'"
      and v: "real m' * 2 powi e' = real (nat \<bar>M\<bar>) * 2 powi e"
      using round_double_exact [of "nat \<bar>M\<bar>" m0 e0 e "M < 0"] by auto
    have xy: "x + y = Finite (M < 0) m' e'"
      using False by (simp only: plus r if_False)
    have "valof (x + y) = (if M < 0 then - 1 else 1) * (real m' * 2 powi e')"
      by (simp add: xy valof_Finite)
    also have "\<dots> = real_of_int M * 2 powi e"
      by (simp add: v)
    finally show ?thesis
      by (simp add: xy sum isfinite_Finite)
  qed
qed


lemma isqrt_square: "isqrt (n * n) = n"
proof -
  define q where "q = isqrt (n * n)"
  have lo: "q * q \<le> n * n" and hi: "n * n < (q + 1) * (q + 1)"
    using isqrt_floor [of "n * n"] by (simp_all add: q_def)
  have "q \<le> n"
  proof (rule ccontr)
    assume "\<not> q \<le> n"
    then have "n < q" by simp
    then have "n * n < q * q"
      by (intro mult_strict_mono) simp_all
    with lo show False by simp
  qed
  moreover have "n \<le> q"
  proof (rule ccontr)
    assume "\<not> n \<le> q"
    then have "q + 1 \<le> n" by simp
    then have "(q + 1) * (q + 1) \<le> n * n"
      by (intro mult_mono) simp_all
    with hi show False by simp
  qed
  ultimately show ?thesis
    by (simp add: q_def)
qed

lemma sqrt_nat_dyadic:
  assumes "sqrt (real M) = real m0 * 2 powi j"
  shows "\<exists>n::nat. M = n * n"
proof (cases "0 \<le> j")
  case True
  then have "sqrt (real M) = real (m0 * 2 ^ nat j)"
    using assms by (simp add: power_int_nonneg_exp)
  then have "real M = real (m0 * 2 ^ nat j) * real (m0 * 2 ^ nat j)"
    by (metis of_nat_0_le_iff real_sqrt_mult_self abs_of_nonneg real_sqrt_abs2 real_sqrt_eq_iff)
  then have "M = (m0 * 2 ^ nat j) * (m0 * 2 ^ nat j)"
    by (metis of_nat_eq_iff of_nat_mult)
  then show ?thesis ..
next
  case False
  define t where "t = nat (- j)"
  have "j = - int t"
    using False by (simp add: t_def)
  then have "(2::real) powi j = inverse (2 ^ t)"
    by (simp only: power_int_minus power_int_of_nat)
  then have "sqrt (real M) * 2 ^ t = real m0"
    using assms by simp
  then have "(sqrt (real M) * 2 ^ t)\<^sup>2 = (real m0)\<^sup>2"
    by simp
  then have "real M * (2 ^ t)\<^sup>2 = (real m0)\<^sup>2"
    by (simp add: power_mult_distrib)
  then have "real (M * (2 ^ t)\<^sup>2) = real (m0\<^sup>2)"
    by simp
  then have sq: "M * (2 ^ t)\<^sup>2 = m0\<^sup>2"
    by (simp only: of_nat_eq_iff)
  then have "(2 ^ t)\<^sup>2 dvd m0\<^sup>2"
    by (metis dvd_triv_right)
  then have "2 ^ t dvd m0"
    by simp
  then obtain n where n: "m0 = n * 2 ^ t"
    by (auto simp: dvd_def mult.commute)
  from sq have "M * (2 ^ t)\<^sup>2 = (n * n) * (2 ^ t)\<^sup>2"
    by (simp add: n power2_eq_square algebra_simps)
  then have "M = n * n"
    by simp
  then show ?thesis ..
qed

lemma sqrt_exact:
  assumes "isfinite x" and "nonneg x" and rep: "representable (sqrt (valof x))"
  shows "isfinite (sqrt_double x) \<and> valof (sqrt_double x) = sqrt (valof x)"
proof -
  from assms(1) obtain s m e where x0: "x = Finite s m e"
    by (rule isfiniteE)
  with assms(2) have x: "x = Finite False m e"
    by (simp add: nonneg_def)
  show ?thesis
  proof (cases "m = 0")
    case True
    then show ?thesis
      by (simp add: x valof_Finite isfinite_Finite)
  next
    case False
    define sh :: nat where "sh = (if even e then 110 else 111)"
    define M where "M = m * 2 ^ sh"
    define h where "h = (e - int sh) div 2"
    have even: "e - int sh = 2 * h"
      by (auto simp: sh_def h_def)
    have le: "2 * h \<le> e" and sh: "nat (e - 2 * h) = sh"
      using even by simp_all
    have hp: "(2::real) powi (2 * h) = 2 powi h * 2 powi h"
      using two_powi_add [of h h] by simp
    have val: "valof x = real M * (2 powi h * 2 powi h)"
      by (simp add: x valof_Finite M_def two_powi_shift [OF le] sh hp)
    have root: "sqrt (valof x) = sqrt (real M) * 2 powi h"
      by (simp add: val real_sqrt_mult)
    from rep obtain m0 e0 where m0: "m0 < 2 ^ 53" "- 1074 \<le> e0" "e0 \<le> 971"
      and abs: "\<bar>sqrt (valof x)\<bar> = real m0 * 2 powi e0"
      by (rule representableE)
    have "0 \<le> valof x"
      by (simp add: x valof_Finite)
    with abs have req: "sqrt (real M) * 2 powi h = real m0 * 2 powi e0"
      by (simp add: root)
    have "sqrt (real M) = real m0 * 2 powi (e0 - h)"
    proof -
      have "(2::real) powi e0 = 2 powi (e0 - h) * 2 powi h"
        using two_powi_add [of "e0 - h" h] by simp
      with req have "sqrt (real M) * 2 powi h = (real m0 * 2 powi (e0 - h)) * 2 powi h"
        by simp
      then show ?thesis
        by (simp only: mult_cancel_right) simp
    qed
    then obtain n where n: "M = n * n"
      using sqrt_nat_dyadic by blast
    have q: "isqrt M = n"
      by (simp add: n isqrt_square)
    have Mpos: "0 < M"
      using False by (simp add: M_def)
    then have npos: "0 < 2 * n"
      using n by (cases "n = 0") simp_all
    have sq: "sqrt_double x = round_double False (2 * n) (h - 1)"
      using False
      by (simp add: x Let_def sh_def [symmetric] M_def [symmetric] n isqrt_square
          h_def [symmetric])
    have rn: "sqrt (real M) = real n"
      by (simp add: n)
    have hh: "(2::real) powi h = 2 powi (h - 1) * 2"
      using two_powi_add [of "h - 1" 1] by simp
    have "real (2 * n) * 2 powi (h - 1) = real n * (2 powi (h - 1) * 2)"
      by simp
    also have "\<dots> = sqrt (real M) * 2 powi h"
      by (simp only: hh rn)
    also have "\<dots> = sqrt (valof x)"
      by (simp only: root)
    finally have res: "real (2 * n) * 2 powi (h - 1) = sqrt (valof x)" .
    with req root have "real (2 * n) * 2 powi (h - 1) = real m0 * 2 powi e0"
      by simp
    with npos m0 obtain m' e' where
      r: "round_double False (2 * n) (h - 1) = Finite False m' e'"
      and v: "real m' * 2 powi e' = real (2 * n) * 2 powi (h - 1)"
      using round_double_exact [of "2 * n" m0 e0 "h - 1" False] by auto
    have "real m' * 2 powi e' = sqrt (valof x)"
      by (simp only: v res)
    then show ?thesis
      by (simp add: sq r valof_Finite isfinite_Finite)
  qed
qed


lemma valof_0: "valof 0 = 0" "isfinite 0"
  by (simp_all add: zero_double_def valof_Finite isfinite_Finite)

lemma squares_sum:
  assumes fin: "\<forall>x\<in>set v. isfinite x \<and> representable ((valof x)\<^sup>2)"
    and part: "\<forall>k\<le>length v. representable (\<Sum>x\<leftarrow>take k v. (valof x)\<^sup>2)"
  shows "k \<le> length v \<Longrightarrow>
    isfinite (foldl (+) 0 (map (\<lambda>i. v ! i * v ! i) [0..<k]))
    \<and> valof (foldl (+) 0 (map (\<lambda>i. v ! i * v ! i) [0..<k])) = (\<Sum>x\<leftarrow>take k v. (valof x)\<^sup>2)"
proof (induction k)
  case 0
  show ?case
    by (simp add: valof_0)
next
  case (Suc k)
  define acc where "acc = foldl (+) 0 (map (\<lambda>i. v ! i * v ! i) [0..<k])"
  from Suc have IH: "isfinite acc" "valof acc = (\<Sum>x\<leftarrow>take k v. (valof x)\<^sup>2)"
    by (simp_all add: acc_def)
  from Suc.prems have mem: "v ! k \<in> set v"
    by simp
  with fin have "isfinite (v ! k)" and "representable (valof (v ! k) * valof (v ! k))"
    by (simp_all add: power2_eq_square)
  then have sq: "isfinite (v ! k * v ! k)"
    "valof (v ! k * v ! k) = (valof (v ! k))\<^sup>2"
    using times_exact [of "v ! k" "v ! k"] by (simp_all add: power2_eq_square)
  have take: "take (Suc k) v = take k v @ [v ! k]"
    using Suc.prems by (simp add: take_Suc_conv_app_nth)
  from part Suc.prems have "representable (\<Sum>x\<leftarrow>take (Suc k) v. (valof x)\<^sup>2)"
    by simp
  then have "representable (valof acc + valof (v ! k * v ! k))"
    by (simp add: take IH(2) sq(2))
  then have "isfinite (acc + v ! k * v ! k)"
    "valof (acc + v ! k * v ! k) = valof acc + valof (v ! k * v ! k)"
    using plus_exact [OF IH(1) sq(1)] by simp_all
  then show ?case
    by (simp add: acc_def [symmetric] take IH(2) sq(2))
qed

lemma isfinite_not_NaN: "isfinite x \<Longrightarrow> x \<noteq> NaN"
  by (auto simp: isfinite_def)

lemma length_exact:
  assumes small: "length (vec a) < 2 ^ 64" and ex: "exact_steps (vec a)"
  shows "\<exists>r. length_Vector (\<lambda>t. t) a = Some r \<and> isfinite r \<and> 0 \<le> r
    \<and> valof r = euclidean_norm (vec a)"
proof -
  define v where "v = vec a"
  define acc where "acc = foldl (+) 0 (map (\<lambda>i. v ! i * v ! i) [0..<length v])"
  from ex have fin: "\<forall>x\<in>set v. isfinite x \<and> representable ((valof x)\<^sup>2)"
    and part: "\<forall>k\<le>length v. representable (\<Sum>x\<leftarrow>take k v. (valof x)\<^sup>2)"
    and root: "representable (euclidean_norm v)"
    by (simp_all add: exact_steps_def v_def)
  have acc: "isfinite acc" "valof acc = (\<Sum>x\<leftarrow>v. (valof x)\<^sup>2)"
    using squares_sum [OF fin part, of "length v"] by (simp_all add: acc_def)
  have "\<forall>x\<in>set (map (\<lambda>i. v ! i * v ! i) [0..<length v]). nonneg x"
    using fin by (simp add: nonneg_square isfinite_not_NaN)
  moreover have "nonneg 0"
    by (simp add: nonneg_def zero_double_def)
  ultimately have "nonneg acc"
    unfolding acc_def by (intro nonneg_foldl)
  moreover have "representable (sqrt (valof acc))"
    using root by (simp add: euclidean_norm_def acc(2))
  ultimately have "isfinite (sqrt_double acc)" "valof (sqrt_double acc) = euclidean_norm v"
    "0 \<le> sqrt_double acc"
    using sqrt_exact [OF acc(1)] nonneg_ge_0 [OF nonneg_sqrt]
    by (simp_all add: euclidean_norm_def acc(2))
  moreover have "length_Vector (\<lambda>t. t) a = Some (sqrt_double acc)"
    using small by (simp add: length_Vector_def length_loop_dot_loop dot_sum acc_def v_def)
  ultimately show ?thesis
    by (simp add: v_def)
qed


lemma representable_dyadic:
  "m < 2 ^ 53 \<Longrightarrow> - 1074 \<le> e \<Longrightarrow> e \<le> 971 \<Longrightarrow> representable (real m * 2 powi e)"
  unfolding representable_def by (intro exI [of _ m] exI [of _ e]) simp

lemma euclidean_norm_first: "0 \<le> valof x \<Longrightarrow> euclidean_norm [x, 0, 0] = valof x"
  by (simp add: euclidean_norm_def valof_0)

text \<open>
  C3, as the claim states it, fails: for \<^verbatim>\<open>Vector3d(2^600, 0, 0)\<close> the square of the first
  component overflows and \<^verbatim>\<open>length()\<close> returns \<open>+infinity\<close>, while the Euclidean norm,
  the real square root of the sum of the squares, is \<open>2^600\<close>, the finite double the vector
  starts with.
\<close>

theorem length_Vector_overflow:
  "length_Vector (\<lambda>t. t) (Vector [Finite False 1 600, 0, 0]) = Some (Infinity False)
   \<and> euclidean_norm [Finite False 1 600, 0, 0] = valof (Finite False 1 600)
   \<and> isfinite (Finite False 1 600)
   \<and> \<not> isfinite (Infinity False)
   \<and> Infinity False \<noteq> Finite False 1 600"
proof -
  have "dot_loop (\<lambda>t. t) [Finite False 1 600, 0, 0] [Finite False 1 600, 0, 0] 0 0 =
      Some (Infinity False)"
    by (subst dot_sum) (simp_all add: upt_3 double_eval)
  moreover have "0 \<le> valof (Finite False 1 600)"
    by (simp only: valof_Finite) simp
  ultimately show ?thesis
    by (simp add: length_Vector_def length_loop_dot_loop euclidean_norm_first isfinite_def)
qed

text \<open>
  C3, amended.  \<^verbatim>\<open>length()\<close> is \<^verbatim>\<open>std::sqrt\<close> of the dot product of the vector with itself,
  both in the arithmetic of \<^verbatim>\<open>double\<close>, where every product, sum and root is rounded.
  For every vector of finite doubles for which the squares of the components, their
  partial sums in the order of the indices and the root of the whole sum are finite
  doubles, it is the Euclidean norm, the non-negative real square root of the sum of the
  squares of the components; the length of \<^verbatim>\<open>Vector3d(3,4,0)\<close> is exactly \<open>5.0\<close>.
\<close>

theorem length_Vector_euclidean:
  "length_Vector toS a = map_option sqrt_double (operator_times_Vector toS a a)
   \<and> (length (vec d) < 2 ^ 64 \<and> exact_steps (vec d) \<longrightarrow>
        (\<exists>r. length_Vector (\<lambda>t. t) d = Some r \<and> isfinite r \<and> 0 \<le> r
           \<and> valof r = euclidean_norm (vec d)))
   \<and> length_Vector (\<lambda>t. t) (Vector [double_of_int 3, double_of_int 4, double_of_int 0]) =
       Some (double_of_int 5)"
proof (intro conjI impI)
  show "length_Vector toS a = map_option sqrt_double (operator_times_Vector toS a a)"
    by (simp add: length_Vector_def operator_times_Vector_def length_loop_dot_loop)
next
  assume "length (vec d) < 2 ^ 64 \<and> exact_steps (vec d)"
  then show "\<exists>r. length_Vector (\<lambda>t. t) d = Some r \<and> isfinite r \<and> 0 \<le> r
      \<and> valof r = euclidean_norm (vec d)"
    by (intro length_exact) simp_all
next
  have "dot_loop (\<lambda>t. t) [Finite False 3 0, Finite False 1 2, Finite False 0 0]
      [Finite False 3 0, Finite False 1 2, Finite False 0 0] 0 0 = Some (Finite False 25 0)"
    by (subst dot_sum) (simp_all add: upt_3 double_eval)
  moreover have "sqrt_double (Finite False 25 0) = Finite False 5 0"
    by (simp add: double_eval)
  ultimately show "length_Vector (\<lambda>t. t)
      (Vector [double_of_int 3, double_of_int 4, double_of_int 0]) = Some (double_of_int 5)"
    by (simp add: length_Vector_def length_loop_dot_loop double_eval)
qed

theorem length_Vector_euclidean_witness:
  "exact_steps [Finite False 3 (- 2), Finite True 1 0, Finite False 0 0]
   \<and> (\<exists>r. length_Vector (\<lambda>t. t)
          (Vector [Finite False 3 (- 2), Finite True 1 0, Finite False 0 0]) = Some r
        \<and> isfinite r \<and> 0 \<le> r \<and> valof r = 5 / 4)
   \<and> length_Vector (\<lambda>t. t) (Vector [Finite False 3 (- 2), Finite True 1 0, Finite False 0 0]) =
       Some (Finite False 5 (- 2))"
proof -
  define v where "v = [Finite False 3 (- 2), Finite True 1 0, Finite False 0 0]"
  have r0: "representable 0" and r1: "representable 1" and r9: "representable (9 / 16)"
    and r25: "representable (25 / 16)" and r5: "representable (5 / 4)"
    using representable_dyadic [of 0 0] representable_dyadic [of 1 0]
      representable_dyadic [of 9 "- 4"] representable_dyadic [of 25 "- 4"]
      representable_dyadic [of 5 "- 2"]
    by simp_all
  have root: "sqrt (25 / 16) = (5 / 4 :: real)"
    by (rule real_sqrt_unique) (simp_all add: power2_eq_square)
  have norm: "euclidean_norm v = 5 / 4"
    by (simp add: euclidean_norm_def v_def valof_Finite power2_eq_square root)
  have part: "representable (\<Sum>x\<leftarrow>take k v. (valof x)\<^sup>2)" if "k \<le> length v" for k
  proof -
    from that consider "k = 0" | "k = 1" | "k = 2" | "k = 3"
      by (auto simp: v_def le_Suc_eq numeral_3_eq_3 numeral_2_eq_2)
    then show ?thesis
      by cases (simp_all add: v_def valof_Finite power2_eq_square r0 r9 r25)
  qed
  have sq: "\<forall>x\<in>set v. isfinite x \<and> representable ((valof x)\<^sup>2)"
    by (simp add: v_def valof_Finite isfinite_Finite power2_eq_square r0 r1 r9)
  have exact: "exact_steps v"
    unfolding exact_steps_def using part sq by (simp add: norm r5)
  then have "\<exists>r. length_Vector (\<lambda>t. t) (Vector v) = Some r \<and> isfinite r \<and> 0 \<le> r
      \<and> valof r = euclidean_norm v"
    using length_Vector_euclidean [THEN conjunct2, THEN conjunct1, of "Vector v"]
    by (simp add: v_def)
  then have "\<exists>r. length_Vector (\<lambda>t. t) (Vector v) = Some r \<and> isfinite r \<and> 0 \<le> r
      \<and> valof r = 5 / 4"
    by (simp only: norm)
  moreover have "length_Vector (\<lambda>t. t) (Vector v) = Some (Finite False 5 (- 2))"
  proof -
    have "dot_loop (\<lambda>t. t) v v 0 0 = Some (Finite False 25 (- 4))"
      unfolding v_def by (subst dot_sum) (simp_all add: upt_3 double_eval)
    moreover have "sqrt_double (Finite False 25 (- 4)) = Finite False 5 (- 2)"
      by (simp add: double_eval)
    ultimately show ?thesis
      by (simp add: length_Vector_def length_loop_dot_loop)
  qed
  ultimately show ?thesis
    using exact by (simp only: v_def simp_thms)
qed

text \<open>
  C9, as the claim states it, fails: the length of a vector with a NaN component is a
  NaN, and \<^verbatim>\<open>NaN >= 0\<close> is false.
\<close>

theorem length_Vector_NaN:
  "length_Vector (\<lambda>t. t) (Vector [NaN, 0, 0]) = Some NaN \<and> \<not> 0 \<le> (NaN :: double)"
proof -
  have "dot_loop (\<lambda>t. t) [NaN, 0, 0] [NaN, 0, 0] 0 0 = Some NaN"
    by (subst dot_sum) (simp_all add: upt_3 double_eval)
  then show ?thesis
    by (simp add: length_Vector_def length_loop_dot_loop zero_double_def)
qed

text \<open>
  C9, amended.  For every vector of doubles none of whose components is a NaN,
  \<^verbatim>\<open>length()\<close> returns a value \<open>r\<close> with \<open>r >= 0\<close> (possibly \<open>+infinity\<close>); the length of
  the zero vector is exactly \<open>0\<close>.
\<close>

theorem length_Vector_nonneg:
  "(length (vec a) < 2 ^ 64 \<longrightarrow> (\<forall>x\<in>set (vec a). x \<noteq> NaN) \<longrightarrow>
      (\<exists>r. length_Vector (\<lambda>t. t) a = Some r \<and> 0 \<le> r))
   \<and> (Dim < 2 ^ 64 \<longrightarrow> length_Vector (\<lambda>t. t) (Vector (replicate Dim 0)) = Some 0)"
proof (intro conjI impI)
  assume small: "length (vec a) < 2 ^ 64" and no_nan: "\<forall>x\<in>set (vec a). x \<noteq> NaN"
  let ?squares = "map (\<lambda>i. vec a ! i * vec a ! i) [0..<length (vec a)]"
  have "\<forall>x\<in>set ?squares. nonneg x"
    using no_nan by (simp add: nonneg_square)
  moreover have "nonneg 0"
    by (simp add: nonneg_def zero_double_def)
  ultimately have "nonneg (sqrt_double (foldl (+) 0 ?squares))"
    by (intro nonneg_sqrt nonneg_foldl)
  then have "0 \<le> sqrt_double (foldl (+) 0 ?squares)"
    by (rule nonneg_ge_0)
  moreover have "length_Vector (\<lambda>t. t) a = Some (sqrt_double (foldl (+) 0 ?squares))"
    using small by (simp add: length_Vector_def length_loop_dot_loop dot_sum)
  ultimately show "\<exists>r. length_Vector (\<lambda>t. t) a = Some r \<and> 0 \<le> r"
    by simp
next
  assume small: "Dim < 2 ^ 64"
  have "foldl (+) (0::double) (map (\<lambda>i. replicate Dim 0 ! i * replicate Dim 0 ! i) [0..<Dim]) = 0"
    by (rule zero_foldl) (simp add: zero_double_def)
  moreover have "sqrt_double 0 = 0"
    by (simp add: zero_double_def)
  ultimately show "length_Vector (\<lambda>t. t) (Vector (replicate Dim 0)) = Some 0"
    using small by (simp add: length_Vector_def length_loop_dot_loop dot_sum)
qed

theorem length_Vector_nonneg_witness:
  "(\<exists>r. length_Vector (\<lambda>t. t) (Vector [Infinity True, Finite False 1 0]) = Some r \<and> 0 \<le> r)
   \<and> length_Vector (\<lambda>t. t) (Vector (replicate 3 0)) = Some 0"
  using length_Vector_nonneg [THEN conjunct1, of "Vector [Infinity True, Finite False 1 0]"]
    length_Vector_nonneg [THEN conjunct2, of 3]
  by simp

section \<open>Addition and subtraction\<close>

lemma transform2_Some:
  "length ys = length xs \<Longrightarrow> transform2 op xs ys = Some (map2 op xs ys)"
  by (induction op xs ys rule: transform2.induct) simp_all

lemma operator_plus_Some:
  "length (vec other) = length (vec a) \<Longrightarrow>
     operator_plus a other = Some (Vector (map2 (+) (vec a) (vec other)))"
  by (simp add: operator_plus_def transform2_Some)

lemma operator_minus_Some:
  "length (vec other) = length (vec a) \<Longrightarrow>
     operator_minus a other = Some (Vector (map2 (-) (vec a) (vec other)))"
  by (simp add: operator_minus_def transform2_Some)





text \<open>
  C8, as the claim states it, fails for \<^verbatim>\<open>Vector3d\<close>: \<open>inf - inf\<close> is a NaN, not \<open>0\<close>.
\<close>

theorem operator_minus_self_infinity:
  "operator_minus (Vector [Infinity False, 0, 0]) (Vector [Infinity False, 0, 0]) =
     Some (Vector [NaN, 0, 0])
   \<and> Vector [NaN, 0, 0] \<noteq> Vector [0, 0, 0 :: double]"
  by (simp add: operator_minus_def double_eval)

lemma minus_self_finite: "isfinite x \<Longrightarrow> x - x = 0"
  by (cases x) (simp_all add: isfinite_def minus_double_def zero_double_def signed_nat_def)

lemma map2_minus_self_finite:
  "\<forall>x\<in>set xs. isfinite x \<Longrightarrow> map2 (-) xs xs = replicate (length xs) 0"
  by (induction xs) (simp_all add: minus_self_finite)

lemma map2_minus_self:
  fixes xs :: "'a::group_add list"
  shows "map2 (-) xs xs = replicate (length xs) 0"
  by (induction xs) simp_all

text \<open>
  C8, amended.  For every vector \<open>a\<close> of doubles whose components are all finite (neither
  an infinity nor a NaN), and for every vector of a component type with exact
  subtraction, \<open>a - a\<close> is the zero vector.
\<close>

theorem operator_minus_self:
  fixes b :: "'a::group_add Vector"
  shows "((\<forall>x\<in>set (vec a). isfinite x) \<longrightarrow>
      operator_minus a a = Some (Vector (replicate (length (vec a)) 0)))
    \<and> operator_minus b b = Some (Vector (replicate (length (vec b)) 0))"
  by (simp add: operator_minus_Some map2_minus_self_finite map2_minus_self)

theorem operator_minus_self_witness:
  "operator_minus (Vector [Finite False 3 (- 1), Finite True 1 1000, Finite True 0 0])
      (Vector [Finite False 3 (- 1), Finite True 1 1000, Finite True 0 0]) =
    Some (Vector [0, 0, 0])"
  using operator_minus_self [THEN conjunct1,
    of "Vector [Finite False 3 (- 1), Finite True 1 1000, Finite True 0 0]"]
  by (simp add: isfinite_def numeral_3_eq_3)

section \<open>The number of components\<close>

lemma index_Some: "unat i < length v \<Longrightarrow> operator_index v i = Some (v ! unat i)"
  by (simp add: operator_index_def)

text \<open>
  C4.  A vector constructed from \<open>Dim\<close> arguments stores \<open>Dim\<close> components, and so does any
  vector the public constructor returns; the sum and the difference of two vectors of
  \<open>Dim\<close> components, the product of one with a scalar and the cross product of two
  three-dimensional vectors exist and have \<open>Dim\<close> components again.  The operands are
  values and stay as they are; the private constructor, which checks nothing, is reached
  from the return statements of the operations only.
\<close>

theorem component_count:
  fixes a b :: "'a::{plus,minus} Vector"
  shows
  "(length xn = Dim \<longrightarrow> (\<exists>v. Vector_ctor Dim xn = Some v \<and> length (vec v) = Dim))
   \<and> (Vector_ctor Dim xn = Some v' \<longrightarrow> length (vec v') = Dim)
   \<and> (length (vec a) = Dim \<and> length (vec b) = Dim \<longrightarrow>
        (\<exists>c. operator_plus a b = Some c \<and> length (vec c) = Dim))
   \<and> (length (vec a) = Dim \<and> length (vec b) = Dim \<longrightarrow>
        (\<exists>c. operator_minus a b = Some c \<and> length (vec c) = Dim))
   \<and> (length (vec a) = Dim \<longrightarrow> length (vec (operator_times_Scalar fromS toS a s)) = Dim)
   \<and> (length (vec u) = 3 \<and> length (vec w) = 3 \<longrightarrow>
        (\<exists>c. x_Vector toS' u w = Some c \<and> length (vec c) = 3))"
proof (intro conjI impI)
  assume "length (vec u) = 3 \<and> length (vec w) = 3"
  then show "\<exists>c. x_Vector toS' u w = Some c \<and> length (vec c) = 3"
    by (simp add: x_Vector_def index_Some Vector_ctor_def)
qed (auto simp: Vector_ctor_def operator_plus_Some operator_minus_Some
       operator_times_Scalar_def split: if_splits)

theorem component_count_witness:
  "(\<exists>v. Vector_ctor 2 [5, 6 :: 32 word] = Some v \<and> length (vec v) = 2)
   \<and> length (vec (Vector [5, 6 :: 32 word])) = 2
   \<and> (\<exists>c. operator_plus (Vector [5, 6 :: 32 word]) (Vector [1, 2]) = Some c \<and> length (vec c) = 2)
   \<and> (\<exists>c. operator_minus (Vector [5, 6 :: 32 word]) (Vector [1, 2]) = Some c \<and> length (vec c) = 2)
   \<and> length (vec (operator_times_Scalar int32_of_Scalar Scalar_of_int32
         (Vector [5, 6]) (Finite False 1 1))) = 2
   \<and> (\<exists>c. x_Vector Scalar_of_int32 (Vector [1, 2, 3])
         (Vector [Finite False 1 0, NaN, Infinity True]) = Some c \<and> length (vec c) = 3)"
  using component_count [where xn = "[5, 6 :: 32 word]" and Dim = 2 and v' = "Vector [5, 6]"
      and a = "Vector [5, 6]" and b = "Vector [1, 2]" and fromS = int32_of_Scalar
      and toS = Scalar_of_int32 and s = "Finite False 1 1" and u = "Vector [1, 2, 3 :: 32 word]"
      and w = "Vector [Finite False 1 0, NaN, Infinity True]" and toS' = Scalar_of_int32]
  by (simp add: Vector_ctor_def)

section \<open>Multiplication with a scalar\<close>

text \<open>
  C6, as the claim states it, fails for an integer component type: with \<open>T = int\<close>,
  \<open>a = (1, 0, 0)\<close> and \<open>s = 0.5\<close> the product \<open>0.5\<close> of the first component is stored as
  the \<^verbatim>\<open>int\<close> \<open>0\<close>, and the result is \<open>(0, 0, 0)\<close>.
\<close>

theorem operator_times_Scalar_int_truncates:
  "vec (operator_times_Scalar int32_of_Scalar Scalar_of_int32 (Vector [1, 0, 0])
       (Finite False 1 (- 1))) = [0, 0, 0]
   \<and> Finite False 1 (- 1) * Scalar_of_int32 1 = Finite False 1 (- 1)
   \<and> Scalar_of_int32
        (vec (operator_times_Scalar int32_of_Scalar Scalar_of_int32 (Vector [1, 0, 0])
           (Finite False 1 (- 1))) ! 0)
     \<noteq> Finite False 1 (- 1) * Scalar_of_int32 1"
  by (simp add: operator_times_Scalar_def Scalar_of_int32_def double_eval)

text \<open>
  C6, amended.  \<^verbatim>\<open>operator*\<close> on a scalar keeps the number of components, and its
  component \<open>i\<close> is the product of \<open>s\<close> and the component \<open>a[i]\<close> converted to \<^verbatim>\<open>double\<close>,
  converted back to \<open>T\<close>; for \<open>T = double\<close> it is \<open>s * a[i]\<close>.
\<close>

theorem operator_times_Scalar_components:
  "(i < length (vec a) \<longrightarrow>
      vec (operator_times_Scalar fromS toS a s) ! i = fromS (s * toS (vec a ! i)))
   \<and> length (vec (operator_times_Scalar fromS toS a s)) = length (vec a)
   \<and> (j < length (vec d) \<longrightarrow>
      vec (operator_times_Scalar (\<lambda>t. t) (\<lambda>t. t) d s') ! j = s' * vec d ! j)"
  by (simp add: operator_times_Scalar_def)

theorem operator_times_Scalar_components_witness:
  "vec (operator_times_Scalar int32_of_Scalar Scalar_of_int32 (Vector [3, 5, 7])
       (Finite False 5 (- 1))) ! 1 = 12
   \<and> vec (operator_times_Scalar (\<lambda>t. t) (\<lambda>t. t)
       (Vector [Finite False 3 (- 1), Finite False 0 0, Finite True 1 0]) (Finite False 1 1)) ! 0
     = Finite False 3 0"
  using operator_times_Scalar_components [where i = 1 and a = "Vector [3, 5, 7]"
      and fromS = int32_of_Scalar and toS = Scalar_of_int32 and s = "Finite False 5 (- 1)"
      and j = 0 and d = "Vector [Finite False 3 (- 1), Finite False 0 0, Finite True 1 0]"
      and s' = "Finite False 1 1"]
  by (simp add: Scalar_of_int32_def double_eval)

section \<open>The text of a vector\<close>

lemma unat_size_minus_1:
  assumes "1 \<le> length v" and "length v < 2 ^ 64"
  shows "unat (vec_size v - 1) = length v - 1"
proof -
  have "unat (vec_size v) = length v"
    using assms(2) by (rule unat_vec_size)
  moreover from this have "vec_size v \<noteq> 0"
    using assms(1) by auto
  ultimately show ?thesis
    by (simp add: unat_minus_one)
qed

lemma toString_loop_run:
  assumes len: "1 \<le> length v" and small: "length v < 2 ^ 64"
  shows "unat i \<le> length v - 1 \<Longrightarrow>
    toString_loop to_string v i str =
      Some (str @ concat (map (\<lambda>c. to_string c @ '', '') (drop (unat i) (butlast v))))"
proof (induction "length v - 1 - unat i" arbitrary: i str)
  case 0
  then have "\<not> i < vec_size v - 1"
    using assms by (simp add: word_less_nat_alt unat_size_minus_1)
  moreover have "drop (unat i) (butlast v) = []"
    using 0 by simp
  ultimately show ?case
    by (subst toString_loop.simps) simp
next
  case (Suc k)
  then have lt: "unat i < length v - 1"
    by linarith
  then have cond: "i < vec_size v - 1"
    using assms by (simp add: word_less_nat_alt unat_size_minus_1)
  have next_i: "unat (i + 1) = Suc (unat i)"
    using cond by (rule unat_inc)
  have step: "drop (unat i) (butlast v) = v ! unat i # drop (unat (i + 1)) (butlast v)"
    using lt by (simp add: next_i Cons_nth_drop_Suc [symmetric] nth_butlast)
  have "toString_loop to_string v (i + 1) (str @ to_string (v ! unat i) @ '', '') =
      Some ((str @ to_string (v ! unat i) @ '', '') @
        concat (map (\<lambda>c. to_string c @ '', '') (drop (unat (i + 1)) (butlast v))))"
    using Suc.hyps(2) lt by (intro Suc.hyps(1)) (simp_all add: next_i)
  then show ?case
    using cond lt by (subst toString_loop.simps) (simp add: operator_index_def step)
qed

lemma join_butlast_last:
  "xs \<noteq> [] \<Longrightarrow>
     concat (map (\<lambda>c. to_string c @ sep) (butlast xs)) @ to_string (last xs) @ rest =
       join sep (map to_string xs) @ rest"
proof (induction xs)
  case Nil
  then show ?case by simp
next
  case (Cons x xs)
  then show ?case by (cases xs) simp_all
qed

lemma toString_nonempty:
  assumes "1 \<le> length (vec a)" and "length (vec a) < 2 ^ 64"
  shows "toString to_string a = Some (''[ '' @ join '', '' (map to_string (vec a)) @ '' ]'')"
proof -
  have ne: "vec a \<noteq> []"
    using assms(1) by auto
  have "toString_loop to_string (vec a) 0 ''[ '' =
      Some (''[ '' @ concat (map (\<lambda>c. to_string c @ '', '') (butlast (vec a))))"
    using toString_loop_run [OF assms, of 0 to_string "''[ ''"] by simp
  moreover have "operator_index (vec a) (vec_size (vec a) - 1) = Some (last (vec a))"
    using assms ne by (simp add: operator_index_def unat_size_minus_1 last_conv_nth)
  ultimately show ?thesis
    using ne by (simp add: toString_def join_butlast_last)
qed

lemma toString_empty: "toString to_string (Vector []) = None"
proof -
  have "(0 :: size_t) < vec_size [] - 1"
    by (simp add: vec_size_def word_gt_0)
  then have "toString_loop to_string [] 0 ''[ '' = None"
    by (subst toString_loop.simps) (simp add: operator_index_def)
  then show ?thesis
    by (simp add: toString_def)
qed


lemma one_two_three:
  "to_string_double nan_sign (double_of_int 1) = ''1.000000''"
  "to_string_double nan_sign (double_of_int 2) = ''2.000000''"
  "to_string_double nan_sign (double_of_int 3) = ''3.000000''"
  by (simp_all add: double_eval digits_eval digit_def)

text \<open>
  C5.  For a vector of \<open>Dim \<ge> 1\<close> components \<^verbatim>\<open>toString()\<close> returns \<open>"[ "\<close>, the texts
  \<^verbatim>\<open>std::to_string\<close> gives for the components, joined by \<open>", "\<close>, and \<open>" ]"\<close>; the vector
  of doubles constructed from \<open>(1.0, 2.0, 3.0)\<close> gives \<open>"[ 1.000000, 2.000000, 3.000000 ]"\<close>;
  \<^verbatim>\<open>operator<<\<close> writes exactly that text to the stream.
\<close>

theorem toString_layout:
  "(1 \<le> length (vec a) \<and> length (vec a) < 2 ^ 64 \<longrightarrow>
      toString to_string a = Some (''[ '' @ join '', '' (map to_string (vec a)) @ '' ]'')
      \<and> operator_shift_left to_string os a =
          Some (os @ ''[ '' @ join '', '' (map to_string (vec a)) @ '' ]''))
   \<and> toString (to_string_double nan_sign)
        (Vector [double_of_int 1, double_of_int 2, double_of_int 3]) =
       Some ''[ 1.000000, 2.000000, 3.000000 ]''
   \<and> operator_shift_left (to_string_double nan_sign) ''v = ''
        (Vector [double_of_int 1, double_of_int 2, double_of_int 3]) =
       Some ''v = [ 1.000000, 2.000000, 3.000000 ]''"
proof -
  have "toString (to_string_double nan_sign)
      (Vector [double_of_int 1, double_of_int 2, double_of_int 3]) =
      Some ''[ 1.000000, 2.000000, 3.000000 ]''"
    by (subst toString_nonempty) (simp_all add: one_two_three)
  then show ?thesis
    by (simp add: operator_shift_left_def toString_nonempty)
qed

theorem toString_layout_witness:
  "toString (to_string_double True) (Vector [Finite True 5 (- 2), Infinity False, NaN]) =
     Some ''[ -1.250000, inf, -nan ]''
   \<and> operator_shift_left (to_string_double True) ''p: ''
       (Vector [Finite True 5 (- 2), Infinity False, NaN]) =
     Some ''p: [ -1.250000, inf, -nan ]''"
  using toString_layout [THEN conjunct1, of "Vector [Finite True 5 (- 2), Infinity False, NaN]"
      "to_string_double True" "''p: ''"]
  by (simp add: double_eval digits_eval digit_def)

text \<open>
  C10.  \<^verbatim>\<open>toString()\<close> reads inside the vector only, and so returns a text, exactly when
  the vector has \<open>Dim \<ge> 1\<close> components.  For \<open>Dim = 0\<close> the bound \<^verbatim>\<open>vec.size()-1\<close> wraps
  around to \<open>2^64 - 1\<close>, and the first read of the loop, \<^verbatim>\<open>vec[0]\<close>, is outside the vector.
\<close>

theorem toString_in_bounds:
  "(length (vec a) < 2 ^ 64 \<longrightarrow>
      (toString to_string a \<noteq> None) = (1 \<le> length (vec a)))
   \<and> unat (vec_size [] - 1) = 2 ^ 64 - 1
   \<and> operator_index [] (0 :: size_t) = None
   \<and> toString to_string (Vector []) = None"
proof (intro conjI impI)
  assume small: "length (vec a) < 2 ^ 64"
  show "(toString to_string a \<noteq> None) = (1 \<le> length (vec a))"
  proof (cases "vec a")
    case Nil
    then have "a = Vector []"
      by (cases a) simp
    then show ?thesis
      by (simp add: toString_empty)
  next
    case (Cons x xs)
    then show ?thesis
      using small by (simp add: toString_nonempty)
  qed
next
  show "unat (vec_size [] - 1) = 2 ^ 64 - 1"
    by (simp add: vec_size_def unsigned_minus_1_eq_mask mask_eq_exp_minus_1)
qed (simp_all add: operator_index_def toString_empty)

theorem toString_in_bounds_witness:
  "toString (\<lambda>c :: nat. ''c'') (Vector [7]) \<noteq> None
   \<and> (toString (\<lambda>c :: nat. ''c'') (Vector []) \<noteq> None) = False"
  using toString_in_bounds [THEN conjunct1, of "Vector [7]" "\<lambda>c :: nat. ''c''"]
    toString_in_bounds [THEN conjunct1, of "Vector []" "\<lambda>c :: nat. ''c''"]
  by simp

end
